theory Spec2Isabelle
  imports Main "HOL-Library.Word"
begin

unbundle bit_operations_syntax

section \<open>Data model of package tlv\<close>

text \<open>
  Go's \<open>int\<close> has the platform's native width (32 or 64 bits). The package compares
  tags and lengths, counts with \<open>++\<close> and narrows with \<open>int32(x)\<close>; on every value
  the platform can hold these agree with the mathematical integers, so tags and lengths
  are \<open>int\<close> and the narrowing is written out (\<open>word_of_int\<close>, which keeps the low 32
  bits). The \<open>int32\<close> variables \<open>n\<close> and \<open>tmp\<close> are \<open>32 word\<close>; the widening \<open>int(n)\<close>
  is \<open>sint\<close>. A byte is \<open>8 word\<close>, a byte slice read as a value is a \<open>byte list\<close>.
\<close>

type_synonym byte = "8 word"
type_synonym int32 = "32 word"

text \<open>
  \<open>type record struct { tag int; length int; value []byte }\<close>. The fields carry the
  names of the accessor methods \<open>Tag()\<close>, \<open>Length()\<close>, \<open>Value()\<close>. A \<open>TLV\<close> interface
  value that may be \<open>nil\<close> is a \<open>TLV option\<close>.
\<close>

record TLV =
  Tag :: int
  Length :: int
  Value :: "byte list"

text \<open>
  The error values: the three package errors, and \<open>io.EOF\<close> and
  \<open>io.ErrUnexpectedEOF\<close>, which \<open>binary.Read\<close> and \<open>Read\<close> of a reader hand back.
  An \<open>error\<close> that may be \<open>nil\<close> is an \<open>error option\<close>.
\<close>

datatype error = EOF | ErrUnexpectedEOF | ErrTLVRead | ErrTLVWrite | ErrTagNotFound

text \<open>A call either returns or stops the program with a runtime panic.\<close>

datatype 'a outcome = Panic | Return 'a

definition in_int32 :: "int \<Rightarrow> bool" where
  "in_int32 x = (- (2 ^ 31) \<le> x \<and> x < 2 ^ 31)"

text \<open>
  \<open>Equals\<close> on two interface values; \<open>bytes.Equal\<close> compares contents (a nil slice
  equals an empty one, and both are \<open>[]\<close> here).
\<close>

fun Equals :: "TLV option \<Rightarrow> TLV option \<Rightarrow> bool" where
  "Equals None None = True"
| "Equals None (Some tlv2) = False"
| "Equals (Some tlv1) None = False"
| "Equals (Some tlv1) (Some tlv2) =
     (if Tag tlv1 \<noteq> Tag tlv2 then False
      else if Length tlv1 \<noteq> Length tlv2 then False
      else if \<not> (Value tlv1 = Value tlv2) then False
      else True)"

subsection \<open>Slices as values\<close>

text \<open>
  \<open>make([]byte, n)\<close> gives \<open>n\<close> zero bytes and panics for a negative \<open>n\<close>; the
  callers below test the sign before they use \<open>make_bytes\<close>. \<open>copy(dst, src)\<close>
  overwrites the first \<open>min (len dst) (len src)\<close> bytes of \<open>dst\<close>.
\<close>

definition make_bytes :: "int \<Rightarrow> byte list" where
  "make_bytes n = replicate (nat n) 0"

definition copy_bytes :: "byte list \<Rightarrow> byte list \<Rightarrow> byte list" where
  "copy_bytes dst src =
     (let n = min (length dst) (length src) in take n src @ drop n dst)"

definition newTLV :: "int \<Rightarrow> byte list \<Rightarrow> TLV" where
  "newTLV tag val =
     (let tlv = \<lparr>Tag = 0, Length = 0, Value = []\<rparr>;
          tlv = tlv\<lparr>Tag := tag\<rparr>;
          tlv = tlv\<lparr>Length := int (length val)\<rparr>;
          tlv = tlv\<lparr>Value := make_bytes (Length tlv)\<rparr>;
          tlv = tlv\<lparr>Value := copy_bytes (Value tlv) val\<rparr>
      in tlv)"

subsection \<open>The reader and the writer\<close>

text \<open>
  The source reads from an \<open>io.Reader\<close> and writes to an \<open>io.Writer\<close>. Both are
  modelled as the in-memory \<open>bytes.Buffer\<close> that \<open>tlvFromBytes\<close> builds with
  \<open>bytes.NewBuffer\<close>: the state of a reader is the list of bytes not yet read, the
  state of a writer the list of bytes written so far.

  \<open>Buffer.Read(p)\<close>: on an empty buffer it returns \<open>(0, nil)\<close> when \<open>len(p) = 0\<close> and
  \<open>(0, io.EOF)\<close> otherwise; on a non-empty buffer it copies
  \<open>min (len p) (bytes left)\<close> bytes into the front of \<open>p\<close> and returns that count and
  \<open>nil\<close>. The result is \<open>(p after the call, n, err, bytes left)\<close>.
\<close>

definition buffer_Read ::
  "byte list \<Rightarrow> byte list \<Rightarrow> byte list \<times> int \<times> error option \<times> byte list" where
  "buffer_Read p b =
     (if b = [] then
        (if length p = 0 then (p, 0, None, b) else (p, 0, Some EOF, b))
      else
        (let n = min (length p) (length b)
         in (copy_bytes p b, int n, None, drop n b)))"

text \<open>\<open>Buffer.Write(p)\<close> appends all of \<open>p\<close> and returns \<open>(len(p), nil)\<close>.\<close>

definition buffer_Write :: "byte list \<Rightarrow> byte list \<Rightarrow> int \<times> error option \<times> byte list" where
  "buffer_Write b p = (int (length p), None, b @ p)"

text \<open>
  \<open>io.ReadFull(r, buf)\<close> with \<open>len(buf) = k > 0\<close> calls \<open>Read\<close> until \<open>k\<close> bytes are
  in: it returns \<open>nil\<close> when the reader had \<open>k\<close> bytes, \<open>io.EOF\<close> when it had none and
  \<open>io.ErrUnexpectedEOF\<close> when it had some but fewer than \<open>k\<close> (they are consumed).
\<close>

definition io_ReadFull :: "nat \<Rightarrow> byte list \<Rightarrow> byte list \<times> error option \<times> byte list" where
  "io_ReadFull k b =
     (if k \<le> length b then (take k b, None, drop k b)
      else if b = [] then ([], Some EOF, b)
      else (b, Some ErrUnexpectedEOF, []))"

text \<open>
  \<open>binary.LittleEndian.Uint32\<close> and \<open>PutUint32\<close>. \<open>Uint32\<close> reads the first four
  bytes; \<open>binary.Read\<close> only ever hands it a slice of exactly four, so the equation for
  shorter slices (where Go would panic on the index) is never used.
\<close>

fun LittleEndian_Uint32 :: "byte list \<Rightarrow> int32" where
  "LittleEndian_Uint32 (b0 # b1 # b2 # b3 # bs) =
     ucast b0 OR push_bit 8 (ucast b1) OR push_bit 16 (ucast b2) OR push_bit 24 (ucast b3)"
| "LittleEndian_Uint32 bs = 0"

definition LittleEndian_PutUint32 :: "int32 \<Rightarrow> byte list" where
  "LittleEndian_PutUint32 v =
     [ucast v, ucast (drop_bit 8 v), ucast (drop_bit 16 v), ucast (drop_bit 24 v)]"

text \<open>
  \<open>binary.Read(r, binary.LittleEndian, &n)\<close> for \<open>n\<close> an \<open>int32\<close>: four bytes through
  \<open>io.ReadFull\<close>; on an error \<open>n\<close> keeps its value. The result is
  \<open>(n after the call, err, bytes left)\<close>.
\<close>

definition binary_Read :: "byte list \<Rightarrow> int32 \<Rightarrow> int32 \<times> error option \<times> byte list" where
  "binary_Read r n =
     (case io_ReadFull 4 r of
        (bs, Some e, r') \<Rightarrow> (n, Some e, r')
      | (bs, None, r') \<Rightarrow> (LittleEndian_Uint32 bs, None, r'))"

text \<open>\<open>binary.Write(w, binary.LittleEndian, tmp)\<close>: one \<open>Write\<close> of the four bytes.\<close>

definition binary_Write :: "byte list \<Rightarrow> int32 \<Rightarrow> error option \<times> byte list" where
  "binary_Write w tmp =
     (case buffer_Write w (LittleEndian_PutUint32 tmp) of (n, err, w') \<Rightarrow> (err, w'))"

section \<open>The record codec\<close>

text \<open>
  \<open>readRecord\<close> returns \<open>(rec, err)\<close>; a bare \<open>return\<close> leaves \<open>rec\<close> nil. The bytes
  left in the reader are the third component. \<open>make\<close> panics when the length field
  is negative.
\<close>

definition readRecord :: "byte list \<Rightarrow> (TLV option \<times> error option \<times> byte list) outcome" where
  "readRecord r =
     (let tlv = \<lparr>Tag = 0, Length = 0, Value = []\<rparr>;
          n = 0;
          (n, err, r) = binary_Read r n
      in if err \<noteq> None then Return (None, err, r)
      else
        let tlv = tlv\<lparr>Tag := sint n\<rparr>;
            (n, err, r) = binary_Read r n
        in if err \<noteq> None then Return (None, err, r)
        else
          let tlv = tlv\<lparr>Length := sint n\<rparr>
          in if Length tlv < 0 then Panic
          else
            let tlv = tlv\<lparr>Value := make_bytes (Length tlv)\<rparr>;
                (p, l, err, r) = buffer_Read (Value tlv) r;
                tlv = tlv\<lparr>Value := p\<rparr>
            in if err \<noteq> None then Return (None, err, r)
            else if l \<noteq> Length tlv then Return (Some tlv, Some ErrTLVWrite, r)
            else Return (Some tlv, None, r))"

definition tlvFromBytes :: "byte list \<Rightarrow> (TLV option \<times> error option \<times> byte list) outcome" where
  "tlvFromBytes rec = readRecord rec"

definition writeRecord :: "TLV \<Rightarrow> byte list \<Rightarrow> error option \<times> byte list" where
  "writeRecord tlv w =
     (let tmp = (word_of_int (Tag tlv) :: int32);
          (err, w) = binary_Write w tmp
      in if err \<noteq> None then (err, w)
      else
        let tmp = (word_of_int (Length tlv) :: int32);
            (err, w) = binary_Write w tmp
        in if err \<noteq> None then (err, w)
        else
          let (n, err, w) = buffer_Write w (Value tlv)
          in if err \<noteq> None then (err, w)
          else if n \<noteq> Length tlv then (Some ErrTLVWrite, w)
          else (err, w))"

text \<open>
  The bytes \<open>writeRecord\<close> appends for a record: the two header fields and the value.
  The tag and length fields of a stream, as \<open>readRecord\<close> decodes them.
\<close>

definition encode :: "TLV \<Rightarrow> byte list" where
  "encode tlv = snd (writeRecord tlv [])"

definition tag_field :: "byte list \<Rightarrow> int" where
  "tag_field r = sint (LittleEndian_Uint32 (take 4 r))"

definition length_field :: "byte list \<Rightarrow> int" where
  "length_field r = sint (LittleEndian_Uint32 (take 4 (drop 4 r)))"

text \<open>
  A record that the wire format can carry: tag and length fit in 32 bits and the
  length is the number of value bytes.
\<close>

definition representable :: "TLV \<Rightarrow> bool" where
  "representable tlv =
     (in_int32 (Tag tlv) \<and> in_int32 (Length tlv) \<and> Length tlv = int (length (Value tlv)))"

subsection \<open>The constructor over a store\<close>

text \<open>
  A Go slice points into a backing array that other slices may share. To say that
  \<open>newTLV\<close> gives the record storage of its own, the constructor is written a second
  time over an explicit store: a list of backing arrays addressed by position, a slice
  being an array, the position of its first byte in it and its length. \<open>make\<close>
  allocates a new zeroed array at the end of the store, \<open>copy\<close> writes into the array
  of its destination, and \<open>store_set h s i b\<close> is the assignment \<open>s[i] = b\<close> (Go
  panics when \<open>i\<close> is not below \<open>len(s)\<close>; the theorems only assign in range).
\<close>

type_synonym store = "byte list list"

record slice =
  array :: nat
  start :: nat
  len :: nat

definition valid_slice :: "store \<Rightarrow> slice \<Rightarrow> bool" where
  "valid_slice h s = (array s < length h \<and> start s + len s \<le> length (h ! array s))"

definition slice_bytes :: "store \<Rightarrow> slice \<Rightarrow> byte list" where
  "slice_bytes h s = take (len s) (drop (start s) (h ! array s))"

definition store_make :: "store \<Rightarrow> nat \<Rightarrow> store \<times> slice" where
  "store_make h n = (h @ [replicate n 0], \<lparr>array = length h, start = 0, len = n\<rparr>)"

definition store_copy :: "store \<Rightarrow> slice \<Rightarrow> slice \<Rightarrow> store" where
  "store_copy h dst src =
     (let n = min (len dst) (len src);
          a = h ! array dst
      in h[array dst := take (start dst) a @ take n (slice_bytes h src) @ drop (start dst + n) a])"

definition store_set :: "store \<Rightarrow> slice \<Rightarrow> nat \<Rightarrow> byte \<Rightarrow> store" where
  "store_set h s i b = h[array s := (h ! array s)[start s + i := b]]"

record record_s =
  s_tag :: int
  s_length :: int
  s_value :: slice

definition newTLV_store :: "store \<Rightarrow> int \<Rightarrow> slice \<Rightarrow> store \<times> record_s" where
  "newTLV_store h tag val =
     (let tlv = \<lparr>s_tag = 0, s_length = 0, s_value = \<lparr>array = 0, start = 0, len = 0\<rparr>\<rparr>;
          tlv = tlv\<lparr>s_tag := tag\<rparr>;
          tlv = tlv\<lparr>s_length := int (len val)\<rparr>;
          (h, v) = store_make h (nat (s_length tlv));
          tlv = tlv\<lparr>s_value := v\<rparr>;
          h = store_copy h (s_value tlv) val
      in (h, tlv))"

text \<open>The record a stored record stands for.\<close>

definition record_of :: "store \<Rightarrow> record_s \<Rightarrow> TLV" where
  "record_of h tlv = \<lparr>Tag = s_tag tlv, Length = s_length tlv, Value = slice_bytes h (s_value tlv)\<rparr>"

section \<open>The record list\<close>

text \<open>
  \<open>TLVList\<close> wraps a \<open>container/list\<close> list whose elements are \<open>*record\<close> values
  (\<open>Get\<close> and \<open>Remove\<close> assert that type). \<open>Front\<close>/\<open>Next\<close> walk it from the head,
  \<open>PushBack\<close> appends, \<open>Remove(e)\<close> unlinks one element: a HOL list in insertion
  order.
\<close>

type_synonym TLVList = "TLV list"

definition New :: TLVList where
  "New = []"

definition TLVList_Length :: "TLVList \<Rightarrow> int" where
  "TLVList_Length recs = int (length recs)"

fun Get :: "TLVList \<Rightarrow> int \<Rightarrow> TLV option \<times> error option" where
  "Get [] tag = (None, Some ErrTagNotFound)"
| "Get (e # es) tag = (if Tag e = tag then (Some e, None) else Get es tag)"

fun GetAll_loop :: "TLVList \<Rightarrow> int \<Rightarrow> TLV list \<Rightarrow> TLV list" where
  "GetAll_loop [] tag ts = ts"
| "GetAll_loop (e # es) tag ts =
     (if Tag e = tag then GetAll_loop es tag (ts @ [e]) else GetAll_loop es tag ts)"

definition GetAll :: "TLVList \<Rightarrow> int \<Rightarrow> TLV list" where
  "GetAll recs tag = GetAll_loop recs tag []"

text \<open>
  \<open>Remove\<close>: the inner \<open>for\<close> walks from the front, unlinks the first element with
  the tag, counts it and breaks; the outer \<open>for\<close> repeats the walk until one finds
  nothing. \<open>Remove_scan\<close> is one inner walk and returns the list and \<open>removed\<close>.
\<close>

fun Remove_scan :: "TLVList \<Rightarrow> int \<Rightarrow> TLVList \<times> int" where
  "Remove_scan [] tag = ([], 0)"
| "Remove_scan (e # es) tag =
     (if Tag e = tag then (es, 0 + 1)
      else (case Remove_scan es tag of (es', removed) \<Rightarrow> (e # es', removed)))"

lemma Remove_scan_shorter:
  "Remove_scan recs tag = (recs', removed) \<Longrightarrow> removed \<noteq> 0 \<Longrightarrow> length recs' < length recs"
  by (induction recs arbitrary: recs' removed) (auto split: if_splits prod.splits)

function Remove_loop :: "TLVList \<Rightarrow> int \<Rightarrow> int \<Rightarrow> TLVList \<times> int" where
  "Remove_loop recs tag totalRemoved =
     (case Remove_scan recs tag of
        (recs', removed) \<Rightarrow>
          if removed = 0 then (recs', totalRemoved)
          else Remove_loop recs' tag (totalRemoved + removed))"
  by pat_completeness auto
termination
  by (relation "measure (\<lambda>(recs, tag, totalRemoved). length recs)")
     (auto dest: Remove_scan_shorter [OF sym])

declare Remove_loop.simps [simp del]

definition Remove :: "TLVList \<Rightarrow> int \<Rightarrow> TLVList \<times> int" where
  "Remove recs tag = Remove_loop recs tag 0"

definition Add :: "TLVList \<Rightarrow> int \<Rightarrow> byte list \<Rightarrow> TLVList" where
  "Add recs tag val = (let rec = newTLV tag val in recs @ [rec])"

definition AddRecord :: "TLVList \<Rightarrow> TLV \<Rightarrow> TLVList" where
  "AddRecord recs rec = recs @ [rec]"

fun Write :: "TLVList \<Rightarrow> byte list \<Rightarrow> error option \<times> byte list" where
  "Write [] w = (None, w)"
| "Write (e # es) w =
     (case writeRecord e w of
        (Some err, w') \<Rightarrow> (Some err, w')
      | (None, w') \<Rightarrow> Write es w')"

text \<open>
  \<open>Read\<close>: the loop decodes records and pushes them until \<open>readRecord\<close> returns an
  error; \<open>io.EOF\<close> is then replaced by \<open>nil\<close>, and \<open>recs\<close> is returned with the error
  in every case. The list holds records only: \<open>readRecord\<close> never returns a nil
  record with a nil error (\<open>readRecord_nil_has_error\<close> below), so the case in which
  Go would push a nil element is never reached, and the loop gives it the value
  \<open>Panic\<close>. Every record decoded takes at least eight bytes from the reader, so the
  loop ends on every stream.
\<close>

lemma readRecord_consumes:
  "readRecord r = Return (tlv, None, r') \<Longrightarrow> length r' < length r"
  by (auto simp: readRecord_def binary_Read_def io_ReadFull_def buffer_Read_def Let_def
           split: if_splits prod.splits)

function Read_loop :: "byte list \<Rightarrow> TLVList \<Rightarrow> (TLVList \<times> error option \<times> byte list) outcome" where
  "Read_loop r recs =
     (case readRecord r of
        Panic \<Rightarrow> Panic
      | Return (tlv, Some err, r') \<Rightarrow> Return (recs, Some err, r')
      | Return (None, None, r') \<Rightarrow> Panic
      | Return (Some tlv, None, r') \<Rightarrow> Read_loop r' (recs @ [tlv]))"
  by pat_completeness auto
termination
  by (relation "measure (\<lambda>(r, recs). length r)") (auto dest: readRecord_consumes)

declare Read_loop.simps [simp del]

definition Read :: "byte list \<Rightarrow> (TLVList \<times> error option) outcome" where
  "Read r =
     (case Read_loop r New of
        Panic \<Rightarrow> Panic
      | Return (recs, err, r') \<Rightarrow> Return (recs, if err = Some EOF then None else err))"

section \<open>Facts about the wire format\<close>

text \<open>\<open>PutUint32\<close> and \<open>Uint32\<close> are inverse on four bytes.\<close>

lemma Uint32_PutUint32: "LittleEndian_Uint32 (LittleEndian_PutUint32 v) = v"
  unfolding LittleEndian_PutUint32_def
  apply simp
  apply (rule bit_word_eqI)
  subgoal for n
    apply (cases "n < 8"; cases "n < 16"; cases "n < 24")
     apply (auto simp add: bit_simps not_less dest: bit_imp_le_length)
    done
  done

lemma PutUint32_Uint32_4:
  "LittleEndian_PutUint32 (LittleEndian_Uint32 [b0, b1, b2, b3]) = [b0, b1, b2, b3]"
  unfolding LittleEndian_PutUint32_def
  apply simp
  apply (intro conjI bit_word_eqI)
  apply (auto simp add: bit_simps dest: bit_imp_le_length)
  done

lemma length_4_cases: "length bs = 4 \<Longrightarrow> \<exists>b0 b1 b2 b3. bs = [b0, b1, b2, b3]"
  by (cases bs; simp; cases "tl bs"; simp; cases "tl (tl bs)"; simp; cases "tl (tl (tl bs))"; simp)

lemma PutUint32_Uint32: "length bs = 4 \<Longrightarrow> LittleEndian_PutUint32 (LittleEndian_Uint32 bs) = bs"
  using length_4_cases [of bs] PutUint32_Uint32_4 by auto

lemma length_PutUint32: "length (LittleEndian_PutUint32 v) = 4"
  by (simp add: LittleEndian_PutUint32_def)

lemma sint_word_of_int_iff: "sint (word_of_int x :: int32) = x \<longleftrightarrow> in_int32 x"
  unfolding in_int32_def
  by (simp add: sint_sbintrunc' signed_take_bit_int_eq_self_iff)

lemma in_int32_sint: "in_int32 (sint (n :: int32))"
  unfolding in_int32_def using sint_ge[of n] sint_lt[of n] by simp

lemma writeRecord_eq:
  "writeRecord t w =
     (if int (length (Value t)) \<noteq> Length t then Some ErrTLVWrite else None,
      w @ LittleEndian_PutUint32 (word_of_int (Tag t))
        @ LittleEndian_PutUint32 (word_of_int (Length t)) @ Value t)"
  by (simp add: writeRecord_def binary_Write_def buffer_Write_def)

lemma encode_eq:
  "encode t = LittleEndian_PutUint32 (word_of_int (Tag t))
        @ LittleEndian_PutUint32 (word_of_int (Length t)) @ Value t"
  by (simp add: encode_def writeRecord_eq)

lemma readRecord_header_short:
  "length r < 8 \<Longrightarrow>
   readRecord r = Return (None, Some (if r = [] \<or> length r = 4 then EOF else ErrUnexpectedEOF), [])"
  by (auto simp: readRecord_def binary_Read_def io_ReadFull_def Let_def)

lemma readRecord_header:
  "8 \<le> length r \<Longrightarrow>
   readRecord r =
     (if length_field r < 0 then Panic
      else case buffer_Read (make_bytes (length_field r)) (drop 8 r) of
        (p, l, err, r') \<Rightarrow>
          if err \<noteq> None then Return (None, err, r')
          else if l \<noteq> length_field r
            then Return (Some \<lparr>Tag = tag_field r, Length = length_field r, Value = p\<rparr>, Some ErrTLVWrite, r')
          else Return (Some \<lparr>Tag = tag_field r, Length = length_field r, Value = p\<rparr>, None, r'))"
  by (auto simp: readRecord_def binary_Read_def io_ReadFull_def Let_def tag_field_def length_field_def
       split: prod.splits)

lemma readRecord_value:
  assumes "8 \<le> length r" and "0 \<le> length_field r"
  shows "readRecord r =
     (if drop 8 r = [] then
        (if length_field r = 0
         then Return (Some \<lparr>Tag = tag_field r, Length = 0, Value = []\<rparr>, None, [])
         else Return (None, Some EOF, []))
      else if int (length r - 8) < length_field r then
        Return (Some \<lparr>Tag = tag_field r, Length = length_field r,
                       Value = drop 8 r @ replicate (nat (length_field r) - (length r - 8)) 0\<rparr>,
                Some ErrTLVWrite, [])
      else
        Return (Some \<lparr>Tag = tag_field r, Length = length_field r,
                       Value = take (nat (length_field r)) (drop 8 r)\<rparr>,
                None, drop (8 + nat (length_field r)) r))"
  using assms
  by (auto simp: readRecord_header buffer_Read_def make_bytes_def copy_bytes_def Let_def min_def
        add.commute)

lemma tag_field_encode: "tag_field (encode t @ rest) = sint (word_of_int (Tag t) :: int32)"
  by (simp add: tag_field_def encode_eq length_PutUint32 Uint32_PutUint32)

lemma length_field_encode: "length_field (encode t @ rest) = sint (word_of_int (Length t) :: int32)"
  by (simp add: length_field_def encode_eq length_PutUint32 Uint32_PutUint32)

lemma length_encode: "length (encode t) = 8 + length (Value t)"
  by (simp add: encode_eq length_PutUint32)

lemma drop_8_encode: "drop 8 (encode t @ rest) = Value t @ rest"
  by (simp add: encode_eq length_PutUint32)

lemma readRecord_encode:
  assumes "representable t"
  shows "readRecord (encode t @ rest) = Return (Some t, None, rest)"
proof -
  have T: "sint (word_of_int (Tag t) :: int32) = Tag t"
    using assms sint_word_of_int_iff [of "Tag t"] unfolding representable_def by blast
  have L: "sint (word_of_int (Length t) :: int32) = Length t"
    using assms sint_word_of_int_iff [of "Length t"] unfolding representable_def by blast
  have V: "Length t = int (length (Value t))"
    using assms unfolding representable_def by blast
  have 8: "8 \<le> length (encode t @ rest)" by (simp add: length_encode)
  have 0: "0 \<le> length_field (encode t @ rest)"
    unfolding length_field_encode L using V by simp
  show ?thesis
    by (simp add: readRecord_value [OF 8 0] tag_field_encode length_field_encode T L drop_8_encode)
       (auto simp: V length_encode drop_8_encode [of t "[]", simplified])
qed

lemma readRecord_success:
  assumes "readRecord r = Return (Some t, None, r')"
  shows "r = encode t @ r' \<and> representable t"
proof -
  have 8: "8 \<le> length r"
    using assms readRecord_header_short [of r] by (cases "length r < 8") auto
  have 0: "0 \<le> length_field r"
    using assms readRecord_header [OF 8] by (cases "length_field r < 0") auto
  have t: "t = \<lparr>Tag = tag_field r, Length = length_field r, Value = take (nat (length_field r)) (drop 8 r)\<rparr>"
    and r': "r' = drop (8 + nat (length_field r)) r" and len: "length_field r \<le> int (length r - 8)"
    using assms unfolding readRecord_value [OF 8 0] by (auto split: if_splits)
  have rep: "representable t"
    using 0 len by (simp add: t representable_def tag_field_def length_field_def in_int32_sint)
  have "take 4 r @ take 4 (drop 4 r) @ take (nat (length_field r)) (drop 8 r) @ r' = r"
    unfolding r' by (metis add.commute append_take_drop_id drop_drop numeral_Bit0)
  moreover have "LittleEndian_PutUint32 (word_of_int (Tag t)) = take 4 r"
    using 8 by (simp add: t tag_field_def PutUint32_Uint32)
  moreover have "LittleEndian_PutUint32 (word_of_int (Length t)) = take 4 (drop 4 r)"
    using 8 by (simp add: t length_field_def PutUint32_Uint32)
  ultimately have "r = encode t @ r'"
    by (simp add: encode_eq) (simp add: t)
  with rep show ?thesis by simp
qed

lemma PutUint32_bytes:
  "LittleEndian_PutUint32 (word_of_int x) =
     [word_of_int (x mod 2 ^ 32), word_of_int (x mod 2 ^ 32 div 2 ^ 8),
      word_of_int (x mod 2 ^ 32 div 2 ^ 16), word_of_int (x mod 2 ^ 32 div 2 ^ 24)]"
  unfolding LittleEndian_PutUint32_def take_bit_eq_mod [symmetric] drop_bit_eq_div [symmetric]
  apply simp
  apply (intro conjI bit_word_eqI)
  apply (auto simp add: bit_simps dest: bit_imp_le_length)
  done


lemma readRecord_Some_fields:
  assumes "readRecord r = Return (Some t, e, r')"
  shows "Tag t = tag_field r \<and> Length t = length_field r \<and> in_int32 (Tag t) \<and> in_int32 (Length t)"
proof -
  have 8: "8 \<le> length r"
    using assms readRecord_header_short [of r] by (cases "length r < 8") auto
  have 0: "0 \<le> length_field r"
    using assms readRecord_header [OF 8] by (cases "length_field r < 0") auto
  have "Tag t = tag_field r \<and> Length t = length_field r"
    using assms unfolding readRecord_value [OF 8 0] by (auto split: if_splits)
  then show ?thesis
    by (simp add: tag_field_def length_field_def in_int32_sint)
qed

lemma round_trip_iff:
  "(\<exists>u' r'. readRecord (encode u) = Return (Some u', None, r') \<and> Equals (Some u) (Some u'))
     \<longleftrightarrow> representable u"
proof
  assume "\<exists>u' r'. readRecord (encode u) = Return (Some u', None, r') \<and> Equals (Some u) (Some u')"
  then obtain u' r' where d: "readRecord (encode u) = Return (Some u', None, r')"
    and e: "Equals (Some u) (Some u')" by blast
  from e have "Tag u = Tag u'" "Length u = Length u'" "Value u = Value u'"
    by (auto split: if_splits)
  then have "u = u'" by (intro TLV.equality) simp_all
  with readRecord_success [OF d] show "representable u"
    by blast
next
  assume "representable u"
  from readRecord_encode [OF this, of "[]"] show
    "\<exists>u' r'. readRecord (encode u) = Return (Some u', None, r') \<and> Equals (Some u) (Some u')"
    by simp
qed

section \<open>Facts about the list operations\<close>

lemma Get_not_found: "\<forall>e\<in>set recs. Tag e \<noteq> tag \<Longrightarrow> Get recs tag = (None, Some ErrTagNotFound)"
  by (induction recs) auto

lemma Get_first_index:
  "\<exists>e\<in>set recs. Tag e = tag \<Longrightarrow>
   \<exists>i<length recs. Get recs tag = (Some (recs ! i), None) \<and> Tag (recs ! i) = tag
      \<and> (\<forall>j<i. Tag (recs ! j) \<noteq> tag)"
proof (induction recs)
  case Nil
  then show ?case by simp
next
  case (Cons a recs)
  show ?case
  proof (cases "Tag a = tag")
    case True
    then have "Get (a # recs) tag = (Some ((a # recs) ! 0), None) \<and> Tag ((a # recs) ! 0) = tag
      \<and> (\<forall>j<0. Tag ((a # recs) ! j) \<noteq> tag)" by simp
    then show ?thesis by blast
  next
    case False
    with Cons.prems have "\<exists>e\<in>set recs. Tag e = tag" by auto
    from Cons.IH [OF this] obtain i where i: "i < length recs"
      "Get recs tag = (Some (recs ! i), None)" "Tag (recs ! i) = tag"
      "\<forall>j<i. Tag (recs ! j) \<noteq> tag" by blast
    have "\<forall>j<Suc i. Tag ((a # recs) ! j) \<noteq> tag"
      using False i(4) by (auto simp: less_Suc_eq_0_disj)
    with i False have "Suc i < length (a # recs) \<and> Get (a # recs) tag = (Some ((a # recs) ! Suc i), None)
       \<and> Tag ((a # recs) ! Suc i) = tag \<and> (\<forall>j<Suc i. Tag ((a # recs) ! j) \<noteq> tag)"
      by simp
    then show ?thesis by blast
  qed
qed

lemma Remove_scan_zero:
  "Remove_scan recs tag = (recs', 0) \<Longrightarrow> recs' = recs \<and> filter (\<lambda>e. Tag e = tag) recs = []"
  by (induction recs arbitrary: recs') (auto split: if_splits prod.splits)

lemma Remove_scan_one:
  "Remove_scan recs tag = (recs', removed) \<Longrightarrow> removed \<noteq> 0 \<Longrightarrow>
     removed = 1 \<and> filter (\<lambda>e. Tag e \<noteq> tag) recs' = filter (\<lambda>e. Tag e \<noteq> tag) recs
     \<and> length (filter (\<lambda>e. Tag e = tag) recs) = Suc (length (filter (\<lambda>e. Tag e = tag) recs'))"
  by (induction recs arbitrary: recs' removed) (auto split: if_splits prod.splits)

lemma Remove_loop_filter:
  "Remove_loop recs tag k =
     (filter (\<lambda>e. Tag e \<noteq> tag) recs, k + int (length (filter (\<lambda>e. Tag e = tag) recs)))"
proof (induction recs tag k rule: Remove_loop.induct)
  case (1 recs tag totalRemoved)
  obtain recs' removed where s: "Remove_scan recs tag = (recs', removed)"
    by (cases "Remove_scan recs tag")
  show ?case
  proof (cases "removed = 0")
    case True
    with s Remove_scan_zero [of recs tag recs'] have "recs' = recs" "filter (\<lambda>e. Tag e = tag) recs = []"
      by auto
    moreover from this(2) have "filter (\<lambda>e. Tag e \<noteq> tag) recs = recs"
      by (simp add: filter_empty_conv filter_id_conv)
    ultimately show ?thesis using s True
      by (subst Remove_loop.simps) simp
  next
    case False
    from Remove_scan_one [OF s False] "1" [OF s [symmetric] False] s False show ?thesis
      by (subst Remove_loop.simps) simp
  qed
qed

lemma Write_eq:
  "list_all representable recs \<Longrightarrow> Write recs w = (None, w @ concat (map encode recs))"
  by (induction recs arbitrary: w)
     (auto simp: writeRecord_eq representable_def encode_eq)

lemma Read_loop_fail:
  "readRecord r = Return (t, Some e, r') \<Longrightarrow> Read_loop r recs = Return (recs, Some e, r')"
  by (subst Read_loop.simps) (simp split: option.splits)

lemma Read_loop_step:
  "readRecord r = Return (Some t, None, r') \<Longrightarrow> Read_loop r recs = Read_loop r' (recs @ [t])"
  by (subst Read_loop.simps) simp


lemma Read_loop_encode:
  "list_all representable new \<Longrightarrow>
   Read_loop (concat (map encode new) @ tail) recs = Read_loop tail (recs @ new)"
proof (induction new arbitrary: recs)
  case Nil
  then show ?case by simp
next
  case (Cons a new)
  then have "readRecord (encode a @ concat (map encode new) @ tail)
     = Return (Some a, None, concat (map encode new) @ tail)"
    by (simp add: readRecord_encode)
  from Read_loop_step [OF this] Cons show ?case by simp
qed



section \<open>Facts about the constructor\<close>

lemma newTLV_store_props:
  assumes "valid_slice h val" and "newTLV_store h tag val = (h', tlv)"
  shows "s_length tlv = int (len (s_value tlv))"
    and "slice_bytes h' (s_value tlv) = slice_bytes h val"
    and "array (s_value tlv) \<notin> {a. a < length h}"
    and "valid_slice h' (s_value tlv)"
    and "\<forall>i<len val. \<forall>b. slice_bytes (store_set h' val i b) (s_value tlv) = slice_bytes h' (s_value tlv)"
    and "record_of h' tlv = newTLV tag (slice_bytes h val)"
  using assms
  by (auto simp: newTLV_store_def store_make_def store_copy_def store_set_def slice_bytes_def
      valid_slice_def Let_def nth_append record_of_def newTLV_def make_bytes_def copy_bytes_def)

lemma newTLV_eq: "newTLV tag val = \<lparr>Tag = tag, Length = int (length val), Value = val\<rparr>"
  by (simp add: newTLV_def make_bytes_def copy_bytes_def)

section \<open>The record round trip\<close>

text \<open>
  C1. For every record whose tag and length lie in the 32-bit signed range, the length
  being the number of value bytes (any bytes, none included): \<open>writeRecord\<close> succeeds,
  and decoding the bytes it wrote returns, with no error and no byte left over, a
  record with the same tag, the same length and the same value, equal to the original
  under \<open>Equals\<close>.
\<close>

theorem record_round_trip:
  assumes "in_int32 (Tag R)" and "in_int32 (Length R)" and "Length R = int (length (Value R))"
  shows "fst (writeRecord R []) = None \<and>
         (\<exists>R'. tlvFromBytes (snd (writeRecord R [])) = Return (Some R', None, []) \<and>
               Equals (Some R) (Some R') \<and>
               Tag R' = Tag R \<and> Length R' = Length R \<and> Value R' = Value R)"
proof -
  from assms have rep: "representable R" by (simp add: representable_def)
  have "fst (writeRecord R []) = None"
    using assms(3) by (simp add: writeRecord_eq)
  moreover have "tlvFromBytes (snd (writeRecord R [])) = Return (Some R, None, [])"
    using readRecord_encode [OF rep, of "[]"] by (simp add: tlvFromBytes_def encode_def)
  ultimately show ?thesis by simp
qed

theorem record_round_trip_witness:
  "fst (writeRecord (newTLV (- 5) [0, 255, 0]) []) = None \<and>
   tlvFromBytes (snd (writeRecord (newTLV (- 5) [0, 255, 0]) []))
     = Return (Some \<lparr>Tag = - 5, Length = 3, Value = [0, 255, 0]\<rparr>, None, []) \<and>
   Equals (Some (newTLV (- 5) [0, 255, 0])) (Some \<lparr>Tag = - 5, Length = 3, Value = [0, 255, 0]\<rparr>)"
proof -
  have 1: "in_int32 (Tag (newTLV (- 5) [0, 255, 0]))"
    by (simp add: newTLV_eq in_int32_def)
  have 2: "in_int32 (Length (newTLV (- 5) [0, 255, 0]))"
    by (simp add: newTLV_eq in_int32_def)
  have 3: "Length (newTLV (- 5) [0, 255, 0]) = int (length (Value (newTLV (- 5) [0, 255, 0])))"
    by (simp add: newTLV_eq)
  show ?thesis
    using record_round_trip [OF 1 2 3] by (auto simp: newTLV_eq)
qed

section \<open>The list round trip\<close>

text \<open>
  C2, as stated, fails where \<open>int\<close> is wider than 32 bits: the list built by
  \<open>Add(4294967296, [])\<close> is written without error, and reading the bytes back gives
  one record with tag 0, which \<open>Equals\<close> does not accept as the original.
\<close>

theorem list_round_trip_counterexample:
  "fst (Write (Add New 4294967296 []) []) = None \<and>
   Read (snd (Write (Add New 4294967296 []) []))
     = Return ([\<lparr>Tag = 0, Length = 0, Value = []\<rparr>], None) \<and>
   \<not> Equals (Some (newTLV 4294967296 [])) (Some \<lparr>Tag = 0, Length = 0, Value = []\<rparr>)"
proof -
  have w: "Write (Add New 4294967296 []) [] = (None, [0, 0, 0, 0, 0, 0, 0, 0])"
    by (simp add: Add_def New_def newTLV_eq writeRecord_eq LittleEndian_PutUint32_def)
  have r1: "readRecord [0, 0, 0, 0, 0, 0, 0, 0]
      = Return (Some \<lparr>Tag = 0, Length = 0, Value = []\<rparr>, None, [])"
    by (simp add: readRecord_value tag_field_def length_field_def)
  have r2: "readRecord [] = Return (None, Some EOF, [])"
    by (simp add: readRecord_header_short)
  have "Read [0, 0, 0, 0, 0, 0, 0, 0] = Return ([\<lparr>Tag = 0, Length = 0, Value = []\<rparr>], None)"
    by (simp add: Read_def New_def Read_loop_step [OF r1] Read_loop_fail [OF r2])
  with w show ?thesis by (simp add: newTLV_eq)
qed

text \<open>
  C2, amended. For every list of records whose tags and lengths lie in the 32-bit
  signed range (each length being the number of value bytes), \<open>Write\<close> succeeds and
  \<open>Read\<close> of the bytes written returns the same records in the same order, with no
  error.
\<close>

theorem list_round_trip:
  assumes "list_all representable recs"
  shows "fst (Write recs []) = None \<and> Read (snd (Write recs [])) = Return (recs, None)"
proof -
  have r: "readRecord [] = Return (None, Some EOF, [])"
    by (simp add: readRecord_header_short)
  have "Read_loop (concat (map encode recs) @ []) [] = Return (recs, Some EOF, [])"
    unfolding Read_loop_encode [OF assms] using Read_loop_fail [OF r] by simp
  then show ?thesis
    by (simp add: Write_eq [OF assms] Read_def New_def)
qed

theorem list_round_trip_witness:
  "list_all representable (Add (Add (Add New 1 [7, 8]) 2 []) 1 [255]) \<and>
   fst (Write (Add (Add (Add New 1 [7, 8]) 2 []) 1 [255]) []) = None \<and>
   Read (snd (Write (Add (Add (Add New 1 [7, 8]) 2 []) 1 [255]) []))
     = Return ([newTLV 1 [7, 8], newTLV 2 [], newTLV 1 [255]], None)"
proof -
  have h: "list_all representable (Add (Add (Add New 1 [7, 8]) 2 []) 1 [255])"
    by (simp add: Add_def New_def newTLV_eq representable_def in_int32_def)
  show ?thesis
    using h list_round_trip [OF h] by (simp add: Add_def New_def)
qed

section \<open>End of stream in \<open>Read\<close>\<close>




section \<open>The list \<open>Read\<close> returns with an error\<close>

text \<open>
  C4, as stated, fails: on one complete record followed by three bytes of a second
  tag, \<open>Read\<close> returns the error \<open>io.ErrUnexpectedEOF\<close> together with the list holding
  the first record.
\<close>

theorem Read_partial_list_counterexample:
  "Read [1, 0, 0, 0, 1, 0, 0, 0, 7, 2, 0, 0]
     = Return ([\<lparr>Tag = 1, Length = 1, Value = [7]\<rparr>], Some ErrUnexpectedEOF)"
  by code_simp

text \<open>
  C4, amended. When the records decoded so far are followed by bytes on which
  \<open>readRecord\<close> fails with an error other than \<open>io.EOF\<close>, \<open>Read\<close> surfaces that error
  and returns with it the list of the records decoded before the failure.
\<close>

theorem Read_error_keeps_list:
  assumes "list_all representable recs" and "readRecord tail = Return (t, Some e, r')"
    and "e \<noteq> EOF"
  shows "Read (concat (map encode recs) @ tail) = Return (recs, Some e)"
  using assms(3)
  by (simp add: Read_def New_def Read_loop_encode [OF assms(1)] Read_loop_fail [OF assms(2)])

theorem Read_error_keeps_list_witness:
  "list_all representable [newTLV 1 [7], newTLV 2 []] \<and>
   readRecord [3, 0, 0, 0, 4, 0, 0, 0, 9] = Return (Some \<lparr>Tag = 3, Length = 4, Value = [9, 0, 0, 0]\<rparr>, Some ErrTLVWrite, []) \<and>
   Read (concat (map encode [newTLV 1 [7], newTLV 2 []]) @ [3, 0, 0, 0, 4, 0, 0, 0, 9])
     = Return ([newTLV 1 [7], newTLV 2 []], Some ErrTLVWrite)"
proof -
  have 1: "list_all representable [newTLV 1 [7], newTLV 2 []]"
    by (simp add: newTLV_eq representable_def in_int32_def)
  have 2: "readRecord [3, 0, 0, 0, 4, 0, 0, 0, 9]
     = Return (Some \<lparr>Tag = 3, Length = 4, Value = [9, 0, 0, 0]\<rparr>, Some ErrTLVWrite, [])"
    by code_simp
  have 3: "ErrTLVWrite \<noteq> EOF" by simp
  from 1 2 Read_error_keeps_list [OF 1 2 3] show ?thesis by simp
qed

section \<open>Short value reads\<close>

text \<open>
  C5, as stated, fails: on a complete header announcing five value bytes with no
  byte after it, the value read returns 0 bytes, which differs from 5, and
  \<open>readRecord\<close> fails with \<open>io.EOF\<close>, not with \<open>ErrTLVWrite\<close>.
\<close>

theorem readRecord_short_value_counterexample:
  "length_field [1, 0, 0, 0, 5, 0, 0, 0] = 5 \<and>
   buffer_Read (make_bytes 5) [] = (make_bytes 5, 0, Some EOF, []) \<and>
   readRecord [1, 0, 0, 0, 5, 0, 0, 0] = Return (None, Some EOF, [])"
  by code_simp

text \<open>
  C5, amended. When a complete header is followed by fewer value bytes than its
  length field says, \<open>readRecord\<close> never accepts the record: it fails with
  \<open>ErrTLVWrite\<close> (returning the record with its value padded with zero bytes) when at
  least one value byte is there, and with \<open>io.EOF\<close> when none is.
\<close>

theorem readRecord_short_value:
  assumes "8 \<le> length r" and "int (length r - 8) < length_field r"
  shows "readRecord r =
           (if length r = 8 then Return (None, Some EOF, [])
            else Return (Some \<lparr>Tag = tag_field r, Length = length_field r,
                              Value = drop 8 r @ replicate (nat (length_field r) - (length r - 8)) 0\<rparr>,
                         Some ErrTLVWrite, []))"
proof -
  from assms(2) have 0: "0 \<le> length_field r" by linarith
  show ?thesis
  proof (cases "length r = 8")
    case True
    with assms(2) have "drop 8 r = []" "length_field r \<noteq> 0" by auto
    with True show ?thesis by (simp add: readRecord_value [OF assms(1) 0])
  next
    case False
    with assms(1) have "drop 8 r \<noteq> []" by auto
    with False assms(2) show ?thesis by (simp add: readRecord_value [OF assms(1) 0])
  qed
qed

theorem readRecord_short_value_witness:
  "readRecord [3, 0, 0, 0, 4, 0, 0, 0, 9, 8]
     = Return (Some \<lparr>Tag = 3, Length = 4, Value = [9, 8, 0, 0]\<rparr>, Some ErrTLVWrite, [])"
proof -
  have 1: "8 \<le> length [3, 0, 0, 0, 4, 0, 0, 0, 9, 8 :: byte]" by simp
  have e: "tag_field [3, 0, 0, 0, 4, 0, 0, 0, 9, 8] = 3" "length_field [3, 0, 0, 0, 4, 0, 0, 0, 9, 8] = 4"
    by code_simp+
  have 2: "int (length [3, 0, 0, 0, 4, 0, 0, 0, 9, 8 :: byte] - 8) < length_field [3, 0, 0, 0, 4, 0, 0, 0, 9, 8]"
    unfolding e by simp
  have r: "replicate (nat 4 - (length [3, 0, 0, 0, 4, 0, 0, 0, 9, 8 :: byte] - 8)) (0 :: byte) = [0, 0]"
    by code_simp
  show ?thesis
    using readRecord_short_value [OF 1 2] unfolding e r by simp
qed

section \<open>Decoding a negative length field\<close>

text \<open>
  C9. \<open>readRecord\<close> is not total: on the eight bytes \<open>00 00 00 00 ff ff ff ff\<close> the
  length field decodes to \<open>-1\<close> and allocating the value buffer panics, so the call
  returns neither a record nor an error.
\<close>

theorem readRecord_negative_length_panics:
  "readRecord [0, 0, 0, 0, 255, 255, 255, 255] = Panic"
  by (simp add: readRecord_def binary_Read_def io_ReadFull_def)

section \<open>Lookup and removal by tag\<close>

text \<open>
  C6. For every list and tag: when some record has the tag, \<open>Get\<close> returns with no
  error the record at the smallest position whose tag matches (the earliest inserted,
  since \<open>Add\<close> and \<open>AddRecord\<close> append); when no record has it, \<open>Get\<close> returns no
  record and \<open>ErrTagNotFound\<close>. On a list of three records with tags \<open>T1, T2, T1\<close>,
  \<open>Get(T1)\<close> returns the record at index 0.
\<close>

theorem Get_first_match:
  "((\<exists>e\<in>set recs. Tag e = tag) \<longrightarrow>
      (\<exists>i<length recs. Get recs tag = (Some (recs ! i), None) \<and> Tag (recs ! i) = tag \<and>
         (\<forall>j<i. Tag (recs ! j) \<noteq> tag))) \<and>
   ((\<forall>e\<in>set recs. Tag e \<noteq> tag) \<longrightarrow> Get recs tag = (None, Some ErrTagNotFound)) \<and>
   (Tag a = t1 \<and> Tag b = t2 \<and> Tag c = t1 \<longrightarrow> Get [a, b, c] t1 = (Some ([a, b, c] ! 0), None))"
  using Get_first_index [of recs tag] Get_not_found [of recs tag] by simp

theorem Get_first_match_witness:
  "Get [newTLV 1 [7], newTLV 2 [8], newTLV 1 [9]] 1 = (Some (newTLV 1 [7]), None) \<and>
   Get [newTLV 1 [7], newTLV 2 [8], newTLV 1 [9]] 3 = (None, Some ErrTagNotFound)"
proof -
  let ?l = "[newTLV 1 [7], newTLV 2 [8], newTLV 1 [9]]"
  have 1: "Tag (newTLV 1 [7]) = 1 \<and> Tag (newTLV 2 [8]) = 2 \<and> Tag (newTLV 1 [9]) = 1"
    by (simp add: newTLV_eq)
  have 2: "\<forall>e\<in>set ?l. Tag e \<noteq> 3"
    by (simp add: newTLV_eq)
  from 1 Get_first_match [of ?l 1 "newTLV 1 [7]" 1 "newTLV 2 [8]" 2 "newTLV 1 [9]"]
  have "Get ?l 1 = (Some (?l ! 0), None)" by blast
  moreover from 2 Get_first_match [of ?l 3] have "Get ?l 3 = (None, Some ErrTagNotFound)"
    by blast
  ultimately show ?thesis by simp
qed

text \<open>
  C7. For every list and tag, \<open>Remove\<close> leaves exactly the records with a different
  tag, in their original order, and returns the number of records that had the tag
  (0 when none had it; the function has no error result).
\<close>

theorem Remove_removes_all:
  "Remove recs tag =
     (filter (\<lambda>e. Tag e \<noteq> tag) recs, int (length (filter (\<lambda>e. Tag e = tag) recs)))"
  by (simp add: Remove_def Remove_loop_filter)

section \<open>The constructor\<close>

text \<open>
  C8. The record built by \<open>newTLV\<close> (which \<open>Add\<close> appends) has the given tag, the given
  bytes as its value and their number as its length. Over the store: the record's
  value lies in an array that did not exist before the call, holds the bytes of the
  caller's slice, and still holds them after any in-range assignment to the caller's
  slice. Every record \<open>readRecord\<close> returns without error has a length equal to the
  number of its value bytes.
\<close>

theorem newTLV_owns_value:
  "Tag (newTLV tag val) = tag \<and> Value (newTLV tag val) = val \<and>
   Length (newTLV tag val) = int (length (Value (newTLV tag val))) \<and>
   Add recs tag val = recs @ [newTLV tag val] \<and>
   (valid_slice h v \<and> newTLV_store h tag v = (h', tlv) \<longrightarrow>
      s_length tlv = int (len (s_value tlv)) \<and>
      record_of h' tlv = newTLV tag (slice_bytes h v) \<and>
      \<not> array (s_value tlv) < length h \<and>
      valid_slice h' (s_value tlv) \<and>
      (\<forall>i<len v. \<forall>b. slice_bytes (store_set h' v i b) (s_value tlv) = slice_bytes h v)) \<and>
   (readRecord r = Return (Some t, None, r') \<longrightarrow> Length t = int (length (Value t)))"
proof -
  have A: "Tag (newTLV tag val) = tag \<and> Value (newTLV tag val) = val \<and>
      Length (newTLV tag val) = int (length (Value (newTLV tag val))) \<and>
      Add recs tag val = recs @ [newTLV tag val]"
    by (simp add: newTLV_eq Add_def)
  have B: "valid_slice h v \<and> newTLV_store h tag v = (h', tlv) \<longrightarrow>
      s_length tlv = int (len (s_value tlv)) \<and>
      record_of h' tlv = newTLV tag (slice_bytes h v) \<and>
      \<not> array (s_value tlv) < length h \<and>
      valid_slice h' (s_value tlv) \<and>
      (\<forall>i<len v. \<forall>b. slice_bytes (store_set h' v i b) (s_value tlv) = slice_bytes h v)"
    using newTLV_store_props [of h v tag h' tlv] by auto
  have C: "readRecord r = Return (Some t, None, r') \<longrightarrow> Length t = int (length (Value t))"
    using readRecord_success [of r t r'] by (auto simp: representable_def)
  from A B C show ?thesis by blast
qed

theorem newTLV_owns_value_witness:
  "valid_slice [[1, 2, 3]] \<lparr>array = 0, start = 0, len = 3\<rparr> \<and>
   newTLV_store [[1, 2, 3]] 7 \<lparr>array = 0, start = 0, len = 3\<rparr>
     = ([[1, 2, 3], [1, 2, 3]],
        \<lparr>s_tag = 7, s_length = 3, s_value = \<lparr>array = 1, start = 0, len = 3\<rparr>\<rparr>) \<and>
   slice_bytes (store_set [[1, 2, 3], [1, 2, 3]] \<lparr>array = 0, start = 0, len = 3\<rparr> 0 9)
               \<lparr>array = 0, start = 0, len = 3\<rparr> = [9, 2, 3] \<and>
   slice_bytes (store_set [[1, 2, 3], [1, 2, 3]] \<lparr>array = 0, start = 0, len = 3\<rparr> 0 9)
               \<lparr>array = 1, start = 0, len = 3\<rparr> = [1, 2, 3] \<and>
   readRecord [7, 0, 0, 0, 1, 0, 0, 0, 5]
     = Return (Some \<lparr>Tag = 7, Length = 1, Value = [5]\<rparr>, None, []) \<and>
   Length \<lparr>Tag = 7, Length = 1, Value = [5]\<rparr> = int (length (Value \<lparr>Tag = 7, Length = 1, Value = [5]\<rparr>))"
proof -
  let ?v = "\<lparr>array = 0, start = 0, len = 3\<rparr>"
  let ?h' = "[[1, 2, 3], [1, 2, 3 :: byte]]"
  let ?tlv = "\<lparr>s_tag = 7, s_length = 3, s_value = \<lparr>array = 1, start = 0, len = 3\<rparr>\<rparr>"
  let ?t = "\<lparr>Tag = 7, Length = 1, Value = [5]\<rparr>"
  have v: "valid_slice [[1, 2, 3]] ?v" by code_simp
  have n: "newTLV_store [[1, 2, 3]] 7 ?v = (?h', ?tlv)" by code_simp
  have m: "slice_bytes (store_set ?h' ?v 0 9) ?v = [9, 2, 3]" by code_simp
  have b: "slice_bytes [[1, 2, 3]] ?v = [1, 2, 3]" by code_simp
  have r: "readRecord [7, 0, 0, 0, 1, 0, 0, 0, 5] = Return (Some ?t, None, [])" by code_simp
  note inst = newTLV_owns_value [where h = "[[1, 2, 3]]" and v = ?v and tag = 7 and h' = ?h'
      and tlv = ?tlv and r = "[7, 0, 0, 0, 1, 0, 0, 0, 5]" and t = ?t and r' = "[]"]
  from inst v n have "\<forall>i<len ?v. \<forall>b. slice_bytes (store_set ?h' ?v i b) (s_value ?tlv)
      = slice_bytes [[1, 2, 3]] ?v"
    by blast
  then have o: "slice_bytes (store_set ?h' ?v 0 9) \<lparr>array = 1, start = 0, len = 3\<rparr> = [1, 2, 3]"
    unfolding b by simp
  from inst r have l: "Length ?t = int (length (Value ?t))" by blast
  from v n m o r l show ?thesis by blast
qed

section \<open>Tags outside the 32-bit range\<close>

text \<open>
  C10. For every record whose tag lies outside the 32-bit signed range: the first
  four bytes \<open>writeRecord\<close> produces are the little-endian bytes of the tag reduced
  modulo \<open>2^32\<close>; whenever \<open>readRecord\<close> returns a record from that encoding, its tag
  is the sign-extended value \<open>(tag + 2^31) mod 2^32 - 2^31\<close>, which differs from the
  original, so the two records are not \<open>Equals\<close>; and it does return that record,
  without error, when the length fits and counts the value bytes. For any record,
  decoding its encoding gives an \<open>Equals\<close> record exactly when tag and length fit in
  32 bits and the length is the number of value bytes.
\<close>

theorem tag_outside_int32_truncated:
  assumes "\<not> in_int32 (Tag t)"
  shows "take 4 (encode t) =
           [word_of_int (Tag t mod 2 ^ 32), word_of_int (Tag t mod 2 ^ 32 div 2 ^ 8),
            word_of_int (Tag t mod 2 ^ 32 div 2 ^ 16), word_of_int (Tag t mod 2 ^ 32 div 2 ^ 24)] \<and>
         (\<forall>t' e r'. readRecord (encode t) = Return (Some t', e, r') \<longrightarrow>
            Tag t' = (Tag t + 2 ^ 31) mod 2 ^ 32 - 2 ^ 31 \<and> Tag t' \<noteq> Tag t \<and>
            \<not> Equals (Some t) (Some t')) \<and>
         (in_int32 (Length t) \<and> Length t = int (length (Value t)) \<longrightarrow>
            readRecord (encode t)
              = Return (Some (t\<lparr>Tag := (Tag t + 2 ^ 31) mod 2 ^ 32 - 2 ^ 31\<rparr>), None, [])) \<and>
         (\<forall>u. (\<exists>u' r'. readRecord (encode u) = Return (Some u', None, r') \<and>
                        Equals (Some u) (Some u'))
              \<longleftrightarrow> in_int32 (Tag u) \<and> in_int32 (Length u) \<and> Length u = int (length (Value u)))"
proof -
  let ?w = "(Tag t + 2 ^ 31) mod 2 ^ 32 - 2 ^ 31"
  have w: "sint (word_of_int (Tag t) :: int32) = ?w"
    by (simp add: int_word_sint)
  have ne: "?w \<noteq> Tag t"
    using assms sint_word_of_int_iff [of "Tag t"] unfolding w by blast
  have A: "take 4 (encode t) =
           [word_of_int (Tag t mod 2 ^ 32), word_of_int (Tag t mod 2 ^ 32 div 2 ^ 8),
            word_of_int (Tag t mod 2 ^ 32 div 2 ^ 16), word_of_int (Tag t mod 2 ^ 32 div 2 ^ 24)]"
    by (simp add: encode_eq length_PutUint32 PutUint32_bytes)
  have B: "\<forall>t' e r'. readRecord (encode t) = Return (Some t', e, r') \<longrightarrow>
            Tag t' = ?w \<and> Tag t' \<noteq> Tag t \<and> \<not> Equals (Some t) (Some t')"
  proof (intro allI impI)
    fix t' e r'
    assume "readRecord (encode t) = Return (Some t', e, r')"
    from readRecord_Some_fields [OF this] tag_field_encode [of t "[]"]
    have "Tag t' = ?w" by (simp add: w)
    with ne show "Tag t' = ?w \<and> Tag t' \<noteq> Tag t \<and> \<not> Equals (Some t) (Some t')"
      by simp
  qed
  have C: "in_int32 (Length t) \<and> Length t = int (length (Value t)) \<longrightarrow>
            readRecord (encode t) = Return (Some (t\<lparr>Tag := ?w\<rparr>), None, [])"
  proof
    assume l: "in_int32 (Length t) \<and> Length t = int (length (Value t))"
    from l have l1: "in_int32 (Length t)" by (rule conjunct1)
    from l have "Length t = int (length (Value t))" by (rule conjunct2)
    then have l2: "int (length (Value t)) = Length t" by (rule sym)
    have "in_int32 ?w" using in_int32_sint [of "word_of_int (Tag t)"] unfolding w .
    then have rep: "representable (t\<lparr>Tag := ?w\<rparr>)"
      by (simp add: representable_def l1 l2)
    have "word_of_int ?w = (word_of_int (Tag t) :: int32)"
      unfolding w [symmetric] by simp
    then have "encode (t\<lparr>Tag := ?w\<rparr>) = encode t"
      by (simp add: encode_eq)
    with readRecord_encode [OF rep, of "[]"]
    show "readRecord (encode t) = Return (Some (t\<lparr>Tag := ?w\<rparr>), None, [])" by simp
  qed
  have D: "\<forall>u. (\<exists>u' r'. readRecord (encode u) = Return (Some u', None, r') \<and>
                        Equals (Some u) (Some u'))
              \<longleftrightarrow> in_int32 (Tag u) \<and> in_int32 (Length u) \<and> Length u = int (length (Value u))"
    using round_trip_iff by (simp add: representable_def)
  from A B C D show ?thesis by blast
qed

theorem tag_outside_int32_truncated_witness:
  "take 4 (encode \<lparr>Tag = 4294967301, Length = 1, Value = [9]\<rparr>) = [5, 0, 0, 0] \<and>
   readRecord (encode \<lparr>Tag = 4294967301, Length = 1, Value = [9]\<rparr>)
     = Return (Some \<lparr>Tag = 5, Length = 1, Value = [9]\<rparr>, None, []) \<and>
   \<not> Equals (Some \<lparr>Tag = 4294967301, Length = 1, Value = [9]\<rparr>) (Some \<lparr>Tag = 5, Length = 1, Value = [9]\<rparr>)"
proof -
  let ?t = "\<lparr>Tag = 4294967301, Length = 1, Value = [9]\<rparr>"
  have h: "\<not> in_int32 (Tag ?t)" by (simp add: in_int32_def)
  have l: "in_int32 (Length ?t) \<and> Length ?t = int (length (Value ?t))"
    by (simp add: in_int32_def)
  have b: "[word_of_int (4294967301 mod 2 ^ 32), word_of_int (4294967301 mod 2 ^ 32 div 2 ^ 8),
            word_of_int (4294967301 mod 2 ^ 32 div 2 ^ 16),
            word_of_int (4294967301 mod 2 ^ 32 div 2 ^ 24)] = [5, 0, 0, 0 :: byte]"
    by code_simp
  have w: "(4294967301 + 2 ^ 31) mod 2 ^ 32 - 2 ^ 31 = (5 :: int)" by simp
  from tag_outside_int32_truncated [OF h] l have
    1: "take 4 (encode ?t) = [5, 0, 0, 0]" and
    2: "readRecord (encode ?t) = Return (Some \<lparr>Tag = 5, Length = 1, Value = [9]\<rparr>, None, [])"
    by (simp_all add: b w)
  from 1 2 show ?thesis by simp
qed

end
